theory Spec2Isabelle
  imports Complex_Main "HOL-Library.Log_Nat"
begin

section \<open>Data model\<close>

text \<open>
  The service keeps two MongoDB collections, \<open>db.transactions\<close> and \<open>db.merchants\<close>.
  A collection is modelled as the list of its documents in insertion order:
  \<open>insert_one\<close> appends, \<open>find_one\<close> returns the first match and \<open>update_one\<close> rewrites
  the first match.

  Amounts are Python floats in the source. The code only compares them, so the model is
  polymorphic in the number type \<open>'n\<close> and asks for a linear order where a comparison
  is made (floats other than NaN are linearly ordered; the rounding of decimal text to
  a float is not modelled). Timestamps (\<open>datetime.utcnow()\<close>) are natural numbers. \<open>metadata\<close> is a
  dictionary of opaque values.
\<close>

typedecl py_any

type_synonym metadata = "(string \<times> py_any) list"

text \<open>The pydantic model \<open>Payment\<close>: what every response and the webhook carry.\<close>

record 'n Payment =
  id_tx :: string
  payment_id :: string
  wallet_address :: string
  amount :: 'n
  status :: string
  tx_signature :: "string option"
  created_at :: nat
  confirmed_at :: "nat option"
  metadata :: "metadata option"

text \<open>
  A document of \<open>db.transactions\<close>, as \<open>create_payment\<close> writes it: the fields of
  \<open>Payment\<close> and two more, the owning merchant and the encoded secret key of the wallet.
\<close>

record 'n transaction = "'n Payment" +
  merchant_id :: string
  wallet_private_key :: string

record 'n PaymentRequest =
  amount_req :: 'n
  payment_id_req :: string
  metadata_req :: "metadata option"

record 'n PaymentResponse =
  success :: bool
  payment :: "'n Payment"

record 'n PaymentListResponse =
  success_list :: bool
  payments :: "'n Payment list"
  pagination :: "(string \<times> int) list"

record 'n WebhookPayload =
  event :: string
  payment_hook :: "'n Payment"

text \<open>A document of \<open>db.merchants\<close>, as \<open>create_merchant\<close> writes it.\<close>

record merchant =
  merchant_id_m :: string
  name :: string
  api_key :: string
  webhook_url :: "string option"
  default_wallet :: string
  default_wallet_private_key :: string
  created_at_m :: nat

text \<open>
  Exceptions are values. \<open>HTTPException\<close> carries the status code and the detail; the
  others are the exceptions the libraries raise (a missing attribute, a malformed public
  key, a failed RPC call, \<open>float(None)\<close>, a subscript on \<open>None\<close> or a value the JSON
  encoder refuses, a failed database call, a failed HTTP request).
\<close>

datatype error =
    HTTPException nat string
  | AttributeError
  | ValueError
  | RpcError
  | TypeError
  | DbError
  | HttpError

text \<open>
  What the process does to the outside world, in order: a call of the notifier
  \<open>send_webhook_to_merchant\<close> with its argument, a payload delivered to a url by an
  HTTP POST, a line printed by one of the three exception handlers, and a sleep of the
  listener.
\<close>

datatype 'n effect =
    Notifier_called "'n transaction option"
  | Http_post string "'n WebhookPayload"
  | Print_webhook_error string error
  | Print_check_error string error
  | Print_listener_error error
  | Sleep nat

record 'n state =
  transactions :: "'n transaction list"
  merchants :: "merchant list"
  trace :: "'n effect list"

definition init_state :: "'n state" where
  "init_state = \<lparr>transactions = [], merchants = [], trace = []\<rparr>"

definition emit :: "'n effect list \<Rightarrow> 'n state \<Rightarrow> 'n state" where
  "emit es s = s\<lparr>trace := trace s @ es\<rparr>"

text \<open>
  The result of a \<open>try\<close> body: the state it reached, and the exception when one was
  raised. Writes done before the exception stay done.
\<close>

type_synonym 'n outcome = "(error \<times> 'n state) + 'n state"

subsection \<open>The collection operations used by the code\<close>

text \<open>\<open>find_one({"id": i})\<close>: the first document whose id is \<open>i\<close>, or \<open>None\<close>.\<close>

definition find_one_by_id :: "string \<Rightarrow> 'n transaction list \<Rightarrow> 'n transaction option" where
  "find_one_by_id i txs = find (\<lambda>t. id_tx t = i) txs"

text \<open>\<open>update_one({"id": i}, {"$set": ...})\<close>: rewrites the first document whose id is \<open>i\<close>.\<close>

fun update_one_by_id ::
  "string \<Rightarrow> ('n transaction \<Rightarrow> 'n transaction) \<Rightarrow> 'n transaction list \<Rightarrow> 'n transaction list" where
  "update_one_by_id i f [] = []"
| "update_one_by_id i f (t # ts) =
     (if id_tx t = i then f t # ts else t # update_one_by_id i f ts)"

definition find_merchant_by_id :: "string \<Rightarrow> merchant list \<Rightarrow> merchant option" where
  "find_merchant_by_id m ms = find (\<lambda>x. merchant_id_m x = m) ms"

definition find_merchant_by_key :: "string \<Rightarrow> merchant list \<Rightarrow> merchant option" where
  "find_merchant_by_key k ms = find (\<lambda>x. api_key x = k) ms"

section \<open>The request handlers\<close>

text \<open>
  The handlers run after the framework has validated the request body and resolved the
  dependency \<open>authenticate_merchant\<close>. Database calls are taken to succeed in the
  handlers (a failure there is an HTTP 500 of the framework, outside the handler's code).
  An exception that leaves a handler is its result \<open>Inl\<close>; the store is then as before.
\<close>

definition authenticate_merchant :: "string \<Rightarrow> 'n state \<Rightarrow> error + merchant" where
  "authenticate_merchant x_api_key s =
     (case find_merchant_by_key x_api_key (merchants s) of
        None \<Rightarrow> Inl (HTTPException 401 ''Invalid API key'')
      | Some m \<Rightarrow> Inr m)"

text \<open>
  What \<open>create_payment\<close> draws from outside: the address of the fresh keypair, the
  outcome of line 109, the \<open>uuid4\<close> string and the clock. Line 109 reads the attribute
  \<open>secret_key\<close> of the keypair and encodes it: \<open>gen_private_key\<close> is the base58 text when
  the read returns, and the exception when it raises. It raises \<open>AttributeError\<close> on the
  keypair the source imports (\<open>solders.keypair.Keypair\<close> has \<open>pubkey()\<close> and \<open>secret()\<close>,
  and no attribute \<open>secret_key\<close>).
\<close>

record payment_gen =
  gen_wallet_address :: string
  gen_private_key :: "error + string"
  gen_uuid :: string
  gen_now :: nat

definition payment_of :: "'n transaction \<Rightarrow> 'n Payment" where
  "payment_of t =
     \<lparr>id_tx = id_tx t,
      payment_id = payment_id t,
      wallet_address = wallet_address t,
      amount = amount t,
      status = status t,
      tx_signature = tx_signature t,
      created_at = created_at t,
      confirmed_at = confirmed_at t,
      metadata = metadata t\<rparr>"

definition new_transaction ::
  "payment_gen \<Rightarrow> string \<Rightarrow> 'n PaymentRequest \<Rightarrow> merchant \<Rightarrow> 'n transaction" where
  "new_transaction g private_key_encoded payment_req m =
     \<lparr>id_tx = gen_uuid g,
      payment_id = payment_id_req payment_req,
      wallet_address = gen_wallet_address g,
      amount = amount_req payment_req,
      status = ''pending'',
      tx_signature = None,
      created_at = gen_now g,
      confirmed_at = None,
      metadata = metadata_req payment_req,
      merchant_id = merchant_id_m m,
      wallet_private_key = private_key_encoded\<rparr>"

definition create_payment ::
  "payment_gen \<Rightarrow> 'n PaymentRequest \<Rightarrow> merchant \<Rightarrow> 'n state
     \<Rightarrow> error + ('n PaymentResponse \<times> 'n state)" where
  "create_payment g payment_req m s =
     (case gen_private_key g of
        Inl x \<Rightarrow> Inl x
      | Inr private_key_encoded \<Rightarrow>
          (let s' = s\<lparr>transactions :=
                       transactions s @ [new_transaction g private_key_encoded payment_req m]\<rparr>;
               p = \<lparr>id_tx = gen_uuid g,
                    payment_id = payment_id_req payment_req,
                    wallet_address = gen_wallet_address g,
                    amount = amount_req payment_req,
                    status = ''pending'',
                    tx_signature = None,
                    created_at = gen_now g,
                    confirmed_at = None,
                    metadata = metadata_req payment_req\<rparr>
           in Inr (\<lparr>success = True, payment = p\<rparr>, s')))"

definition get_payment :: "string \<Rightarrow> merchant \<Rightarrow> 'n state \<Rightarrow> error + 'n PaymentResponse" where
  "get_payment pid m s =
     (case find (\<lambda>t. payment_id t = pid \<and> merchant_id t = merchant_id_m m) (transactions s) of
        None \<Rightarrow> Inl (HTTPException 404 ''Payment not found'')
      | Some t \<Rightarrow> Inr \<lparr>success = True, payment = payment_of t\<rparr>)"

text \<open>
  \<open>list_payments\<close>: the status filter applies when the string is given and not empty;
  the documents are sorted by \<open>created_at\<close>, newest first (the order among equal
  timestamps is the store's choice; here the later document first), then \<open>offset\<close> are
  skipped and at most \<open>limit\<close> returned. A negative \<open>offset\<close> or \<open>limit\<close> is refused by
  the cursor with a \<open>ValueError\<close>.
\<close>

definition list_query :: "string option \<Rightarrow> merchant \<Rightarrow> 'n transaction \<Rightarrow> bool" where
  "list_query st m t =
     (merchant_id t = merchant_id_m m \<and>
      (case st of None \<Rightarrow> True | Some x \<Rightarrow> x = [] \<or> status t = x))"

definition list_payments ::
  "string option \<Rightarrow> int \<Rightarrow> int \<Rightarrow> merchant \<Rightarrow> 'n state \<Rightarrow> error + 'n PaymentListResponse" where
  "list_payments st limit offset m s =
     (let matching = filter (list_query st m) (transactions s);
          total = int (length matching)
      in if offset < 0 \<or> limit < 0 then Inl ValueError
         else
           let txs = take (nat limit) (drop (nat offset) (rev (sort_key created_at matching)))
           in Inr \<lparr>success_list = True,
                   payments = map payment_of txs,
                   pagination = [(''total'', total), (''limit'', limit), (''offset'', offset)]\<rparr>)"

text \<open>
  \<open>create_merchant\<close> tests the admin key, reads and encodes the secret key of a fresh
  keypair (line 267, the same read of \<open>secret_key\<close> as in \<open>create_payment\<close>, with the same
  two outcomes), builds the merchant document as a dictionary, inserts it (\<open>insert_one\<close>
  adds the key \<open>_id\<close> to the dictionary it is given) and answers with the dictionary
  without the key \<open>default_wallet_private_key\<close>.
\<close>

datatype field_value = Str string | Time nat | ObjectId string

record merchant_gen =
  gen_merchant_id :: string
  gen_api_key :: string
  gen_default_wallet :: string
  gen_default_private_key :: "error + string"
  gen_created_at :: nat
  gen_object_id :: string

definition new_merchant :: "merchant_gen \<Rightarrow> string \<Rightarrow> string \<Rightarrow> string \<Rightarrow> merchant" where
  "new_merchant g default_wallet_private_key_encoded nm url =
     \<lparr>merchant_id_m = gen_merchant_id g,
      name = nm,
      api_key = gen_api_key g,
      webhook_url = Some url,
      default_wallet = gen_default_wallet g,
      default_wallet_private_key = default_wallet_private_key_encoded,
      created_at_m = gen_created_at g\<rparr>"

definition merchant_items ::
  "merchant_gen \<Rightarrow> string \<Rightarrow> string \<Rightarrow> string \<Rightarrow> (string \<times> field_value) list" where
  "merchant_items g default_wallet_private_key_encoded nm url =
     [(''merchant_id'', Str (gen_merchant_id g)),
      (''name'', Str nm),
      (''api_key'', Str (gen_api_key g)),
      (''webhook_url'', Str url),
      (''default_wallet'', Str (gen_default_wallet g)),
      (''default_wallet_private_key'', Str default_wallet_private_key_encoded),
      (''created_at'', Time (gen_created_at g)),
      (''_id'', ObjectId (gen_object_id g))]"

definition create_merchant ::
  "string option \<Rightarrow> merchant_gen \<Rightarrow> string \<Rightarrow> string \<Rightarrow> string \<Rightarrow> 'n state
     \<Rightarrow> error + ((string \<times> field_value) list \<times> 'n state)" where
  "create_merchant ADMIN_API_KEY g nm url admin_key s =
     (if Some admin_key \<noteq> ADMIN_API_KEY then Inl (HTTPException 401 ''Invalid admin key'')
      else
        (case gen_default_private_key g of
           Inl x \<Rightarrow> Inl x
         | Inr k \<Rightarrow>
             (let s' = s\<lparr>merchants := merchants s @ [new_merchant g k nm url]\<rparr>;
                  merchant_response =
                    filter (\<lambda>(key, v). key \<noteq> ''default_wallet_private_key'')
                      (merchant_items g k nm url)
              in Inr (merchant_response, s'))))"

section \<open>The background tasks\<close>

text \<open>
  What one call of \<open>check_payment_received\<close> meets outside the process: whether a string
  is a well-formed public key, what the two client calls do (the token accounts of an
  owner, and the \<open>ui_amount\<close> of an account, which may be \<open>None\<close>), the clock, whether each
  database call goes through, and what \<open>client.post(url, json=payload.dict())\<close> does: it
  raises and nothing is delivered, or the payload is delivered and a response comes
  back with a status code, which the code does not look at.

  Two of these calls have one outcome only, as the source writes them; the predicate
  \<open>as_written\<close> below says so. Line 316 passes a dictionary where the client takes a
  \<open>TokenAccountOpts\<close>, and the client raises \<open>AttributeError\<close> before it sends a request.
  Line 242 passes \<open>payload.dict()\<close>, which holds \<open>datetime\<close> objects (\<open>created_at\<close>), and the
  JSON encoding inside \<open>client.post\<close> raises \<open>TypeError\<close> before anything is sent. The
  other outcomes are kept in the model: they are what the calls do once the argument
  is the one the library takes.
\<close>

record 'n env =
  valid_pubkey :: "string \<Rightarrow> bool"
  get_token_accounts_by_owner :: "string \<Rightarrow> error + string list"
  get_token_account_balance :: "string \<Rightarrow> error + 'n option"
  utcnow :: nat
  db_update_ok :: bool
  db_find_ok :: bool
  db_merchant_ok :: bool
  http_post :: "string \<Rightarrow> error + nat"

definition webhook_payload :: "'n transaction \<Rightarrow> 'n WebhookPayload" where
  "webhook_payload t = \<lparr>event = ''payment.confirmed'', payment_hook = payment_of t\<rparr>"

text \<open>The body of the \<open>try\<close> of \<open>send_webhook_to_merchant\<close>, on a document.\<close>

definition send_webhook_try :: "'n env \<Rightarrow> 'n transaction \<Rightarrow> 'n state \<Rightarrow> 'n outcome" where
  "send_webhook_try e t s =
     (if \<not> db_merchant_ok e then Inl (DbError, s)
      else
        (case find_merchant_by_id (merchant_id t) (merchants s) of
           None \<Rightarrow> Inr s
         | Some m \<Rightarrow>
             (case webhook_url m of
                None \<Rightarrow> Inr s
              | Some url \<Rightarrow>
                  (if url = [] then Inr s
                   else
                     (case http_post e url of
                        Inl x \<Rightarrow> Inl (x, s)
                      | Inr status_code \<Rightarrow>
                          Inr (emit [Http_post url (webhook_payload t)] s))))))"

text \<open>
  \<open>send_webhook_to_merchant\<close>. Its argument is what \<open>find_one\<close> returned, so it may be
  \<open>None\<close>: then the subscript in the \<open>try\<close> raises \<open>TypeError\<close>, and so does the subscript
  in the handler's message, which leaves the function.
\<close>

definition send_webhook_to_merchant :: "'n env \<Rightarrow> 'n transaction option \<Rightarrow> 'n state \<Rightarrow> 'n outcome" where
  "send_webhook_to_merchant e txo s =
     (let s0 = emit [Notifier_called txo] s
      in case txo of
           None \<Rightarrow> Inl (TypeError, s0)
         | Some t \<Rightarrow>
             (case send_webhook_try e t s0 of
                Inl (x, s1) \<Rightarrow> Inr (emit [Print_webhook_error (id_tx t) x] s1)
              | Inr s1 \<Rightarrow> Inr s1))"

definition confirm :: "nat \<Rightarrow> 'n transaction \<Rightarrow> 'n transaction" where
  "confirm now t = t\<lparr>status := ''confirmed'', confirmed_at := Some now\<rparr>"

text \<open>The body of the \<open>try\<close> of \<open>check_payment_received\<close>.\<close>

definition check_payment_received_try ::
  "('n::linorder) env \<Rightarrow> 'n transaction \<Rightarrow> 'n state \<Rightarrow> 'n outcome" where
  "check_payment_received_try e t s =
     (if \<not> valid_pubkey e (wallet_address t) then Inl (ValueError, s)
      else
        (case get_token_accounts_by_owner e (wallet_address t) of
           Inl x \<Rightarrow> Inl (x, s)
         | Inr [] \<Rightarrow> Inr s
         | Inr (a # _) \<Rightarrow>
             (if \<not> valid_pubkey e a then Inl (ValueError, s)
              else
                (case get_token_account_balance e a of
                   Inl x \<Rightarrow> Inl (x, s)
                 | Inr None \<Rightarrow> Inl (TypeError, s)
                 | Inr (Some usdc_amount) \<Rightarrow>
                     (if usdc_amount \<ge> amount t then
                        (if \<not> db_update_ok e then Inl (DbError, s)
                         else
                           (let s1 = s\<lparr>transactions :=
                                        update_one_by_id (id_tx t) (confirm (utcnow e)) (transactions s)\<rparr>
                            in (if \<not> db_find_ok e then Inl (DbError, s1)
                                else send_webhook_to_merchant e
                                       (find_one_by_id (id_tx t) (transactions s1)) s1)))
                      else Inr s)))))"

definition check_payment_received :: "('n::linorder) env \<Rightarrow> 'n transaction \<Rightarrow> 'n state \<Rightarrow> 'n state" where
  "check_payment_received e t s =
     (case check_payment_received_try e t s of
        Inl (x, s1) \<Rightarrow> emit [Print_check_error (id_tx t) x] s1
      | Inr s1 \<Rightarrow> s1)"

text \<open>
  One pass of \<open>payment_listener\<close>. What it meets outside: whether the query for the
  pending documents goes through, and the environment of each check of the batch, by
  position.
\<close>

record 'n world =
  db_list_ok :: bool
  check_env :: "nat \<Rightarrow> 'n env"

fun check_batch ::
  "(nat \<Rightarrow> ('n::linorder) env) \<Rightarrow> nat \<Rightarrow> 'n transaction list \<Rightarrow> 'n state \<Rightarrow> 'n state" where
  "check_batch es k [] s = s"
| "check_batch es k (tx # txs) s = check_batch es (Suc k) txs (check_payment_received (es k) tx s)"

definition pending_txs :: "'n state \<Rightarrow> 'n transaction list" where
  "pending_txs s = take 100 (filter (\<lambda>t. status t = ''pending'') (transactions s))"

definition payment_listener_try :: "('n::linorder) world \<Rightarrow> 'n state \<Rightarrow> 'n outcome" where
  "payment_listener_try w s =
     (if \<not> db_list_ok w then Inl (DbError, s)
      else Inr (emit [Sleep 15] (check_batch (check_env w) 0 (pending_txs s) s)))"

definition listener_pass :: "('n::linorder) world \<Rightarrow> 'n state \<Rightarrow> 'n state" where
  "listener_pass w s =
     (case payment_listener_try w s of
        Inl (x, s1) \<Rightarrow> emit [Print_listener_error x, Sleep 30] s1
      | Inr s1 \<Rightarrow> s1)"

text \<open>
  \<open>payment_listener\<close> is \<open>while True\<close>: it has no result. The model runs its first \<open>n\<close>
  passes, the \<open>k\<close>-th in the world \<open>ws k\<close>.
\<close>

fun payment_listener :: "nat \<Rightarrow> (nat \<Rightarrow> ('n::linorder) world) \<Rightarrow> 'n state \<Rightarrow> 'n state" where
  "payment_listener 0 ws s = s"
| "payment_listener (Suc n) ws s = payment_listener n (\<lambda>k. ws (Suc k)) (listener_pass (ws 0) s)"

section \<open>Notions used by the properties\<close>

text \<open>The effects added to the trace between an earlier state and a later one.\<close>

definition new_effects :: "'n state \<Rightarrow> 'n state \<Rightarrow> 'n effect list" where
  "new_effects s s' = drop (length (trace s)) (trace s')"

definition is_sleep :: "'n effect \<Rightarrow> bool" where
  "is_sleep x = (case x of Sleep _ \<Rightarrow> True | _ \<Rightarrow> False)"




text \<open>
  The balance one check observes for a document, following the ledger queries of
  \<open>check_payment_received\<close> in their order: \<open>Inr None\<close> when the owner has no token
  account, \<open>Inr (Some b)\<close> when the first account reports the amount \<open>b\<close>, and the
  exception when a query or a conversion raises.
\<close>

definition observed_balance :: "'n env \<Rightarrow> 'n transaction \<Rightarrow> error + 'n option" where
  "observed_balance e t =
     (if \<not> valid_pubkey e (wallet_address t) then Inl ValueError
      else
        (case get_token_accounts_by_owner e (wallet_address t) of
           Inl x \<Rightarrow> Inl x
         | Inr [] \<Rightarrow> Inr None
         | Inr (a # _) \<Rightarrow>
             (if \<not> valid_pubkey e a then Inl ValueError
              else
                (case get_token_account_balance e a of
                   Inl x \<Rightarrow> Inl x
                 | Inr None \<Rightarrow> Inl TypeError
                 | Inr (Some b) \<Rightarrow> Inr (Some b)))))"

text \<open>\<open>confirmed_at\<close> is set exactly on a confirmed payment.\<close>

definition coherent :: "('n, 'z) Payment_scheme \<Rightarrow> bool" where
  "coherent p = ((confirmed_at p \<noteq> None) = (status p = ''confirmed''))"

text \<open>
  The operations of the system: the four request handlers, a call of
  \<open>check_payment_received\<close> on any document (the listener makes such calls; taking them
  one by one also covers passes that overlap), and a pass of the listener. The reads
  and a handler that raises leave the state as it is.
\<close>

datatype 'n operation =
    Create_payment payment_gen "'n PaymentRequest" merchant
  | Get_payment string merchant
  | List_payments "string option" int int merchant
  | Create_merchant "string option" merchant_gen string string string
  | Check_payment "'n env" "'n transaction"
  | Listener_pass "'n world"

fun exec :: "('n::linorder) operation \<Rightarrow> 'n state \<Rightarrow> 'n state" where
  "exec (Create_payment g payment_req m) s =
     (case create_payment g payment_req m s of Inl x \<Rightarrow> s | Inr (r, s') \<Rightarrow> s')"
| "exec (Get_payment pid m) s = s"
| "exec (List_payments st limit offset m) s = s"
| "exec (Create_merchant k g nm url admin_key) s =
     (case create_merchant k g nm url admin_key s of Inl x \<Rightarrow> s | Inr (r, s') \<Rightarrow> s')"
| "exec (Check_payment e t) s = check_payment_received e t s"
| "exec (Listener_pass w) s = listener_pass w s"

fun run :: "('n::linorder) operation list \<Rightarrow> 'n state \<Rightarrow> 'n state" where
  "run [] s = s"
| "run (x # xs) s = run xs (exec x s)"

text \<open>
  The later state keeps every record of the earlier one at its place, with its id, and
  keeps it confirmed when it was.
\<close>

definition keeps_confirmed :: "'n state \<Rightarrow> 'n state \<Rightarrow> bool" where
  "keeps_confirmed s s' =
     (length (transactions s) \<le> length (transactions s') \<and>
      (\<forall>k<length (transactions s).
         id_tx (transactions s' ! k) = id_tx (transactions s ! k) \<and>
         (status (transactions s ! k) = ''confirmed'' \<longrightarrow>
          status (transactions s' ! k) = ''confirmed'')))"

text \<open>A store that differs from another only in the stored private keys.\<close>

definition scrub :: "'n transaction \<Rightarrow> 'n transaction" where
  "scrub t = t\<lparr>wallet_private_key := []\<rparr>"

definition same_but_keys :: "'n state \<Rightarrow> 'n state \<Rightarrow> bool" where
  "same_but_keys s1 s2 = (map scrub (transactions s1) = map scrub (transactions s2))"



subsection \<open>Amounts as floats\<close>

text \<open>
  An amount reaches the code as decimal text (the JSON number of the request, the
  \<open>ui_amount\<close> of the ledger, which has 6 decimals) and is held as a Python float: the
  binary64 value nearest to the decimal, ties to the even significand. \<open>float_of\<close> is
  that value, as a rational: with \<open>k\<close> the exponent of \<open>x\<close> (\<open>2^k \<le> x < 2^(k+1)\<close>), the
  multiple of \<open>2^(k-52)\<close> nearest to \<open>x\<close>. The limits of the exponent range (below
  \<open>2^-1022\<close>, above \<open>2^1024\<close>) are not modelled.
\<close>

definition round_half_even :: "rat \<Rightarrow> int" where
  "round_half_even x =
     (let f = \<lfloor>x\<rfloor>; d = x - of_int f
      in if d < 1 / 2 then f else if 1 / 2 < d then f + 1 else if even f then f else f + 1)"

definition exponent :: "rat \<Rightarrow> int" where
  "exponent x =
     (let k = bitlen (fst (quotient_of x)) - bitlen (snd (quotient_of x))
      in if 2 powi k \<le> x then k else k - 1)"

definition float_pos :: "rat \<Rightarrow> rat" where
  "float_pos x =
     (if x = 0 then 0
      else of_int (round_half_even (x / 2 powi (exponent x - 52))) * 2 powi (exponent x - 52))"

definition float_of :: "rat \<Rightarrow> rat" where
  "float_of x = (if x < 0 then - float_pos (- x) else float_pos x)"

text \<open>
  The test of lines 331 to 333, \<open>float(ui_amount) >= transaction["amount"]\<close>, on the two
  decimal amounts.
\<close>

definition balance_suffices :: "rat \<Rightarrow> rat \<Rightarrow> bool" where
  "balance_suffices ui_amount requested = (float_of ui_amount \<ge> float_of requested)"

subsection \<open>Example data\<close>

text \<open>
  A merchant with a webhook, a request for 10 units, and environments in which the
  ledger holds one token account with a given balance. Amounts are rationals here.
  In \<open>ledger_env\<close> the client answers; in \<open>written_env\<close> the ledger holds the same but the
  two calls do what they do as the source writes them. \<open>gen_written\<close> and \<open>mgen_written\<close>
  are the keypairs as the source reads them.
\<close>

definition shop :: merchant where
  "shop = \<lparr>merchant_id_m = ''MERCH_1'', name = ''shop'', api_key = ''key1'',
            webhook_url = Some ''http://shop/hook'', default_wallet = ''W0'',
            default_wallet_private_key = ''S0'', created_at_m = 0\<rparr>"

definition order1 :: "rat PaymentRequest" where
  "order1 = \<lparr>amount_req = 10, payment_id_req = ''order-1'', metadata_req = None\<rparr>"

definition gen1 :: payment_gen where
  "gen1 = \<lparr>gen_wallet_address = ''W1'', gen_private_key = Inr ''S1'', gen_uuid = ''u1'',
            gen_now = 1\<rparr>"

definition gen2 :: payment_gen where
  "gen2 = \<lparr>gen_wallet_address = ''W2'', gen_private_key = Inr ''S2'', gen_uuid = ''u2'',
            gen_now = 2\<rparr>"

definition tx1 :: "rat transaction" where
  "tx1 = new_transaction gen1 ''S1'' order1 shop"

definition ledger_env :: "rat \<Rightarrow> nat \<Rightarrow> error + nat \<Rightarrow> rat env" where
  "ledger_env b now post =
     \<lparr>valid_pubkey = (\<lambda>k. True),
      get_token_accounts_by_owner = (\<lambda>w. Inr [''A1'']),
      get_token_account_balance = (\<lambda>a. Inr (Some b)),
      utcnow = now,
      db_update_ok = True,
      db_find_ok = True,
      db_merchant_ok = True,
      http_post = (\<lambda>u. post)\<rparr>"

definition shop_state :: "rat state" where
  "shop_state = \<lparr>transactions = [tx1], merchants = [shop], trace = []\<rparr>"

definition mgen1 :: merchant_gen where
  "mgen1 = \<lparr>gen_merchant_id = ''MERCH_1'', gen_api_key = ''key1'', gen_default_wallet = ''W0'',
             gen_default_private_key = Inr ''S0'', gen_created_at = 0, gen_object_id = ''oid1''\<rparr>"

definition bad_key_env :: "rat env" where
  "bad_key_env = (ledger_env 10 5 (Inr 200))\<lparr>valid_pubkey := (\<lambda>k. False)\<rparr>"

definition world_of :: "bool \<Rightarrow> rat env \<Rightarrow> rat world" where
  "world_of ok e = \<lparr>db_list_ok = ok, check_env = (\<lambda>k. e)\<rparr>"


definition written_env :: "rat \<Rightarrow> nat \<Rightarrow> rat env" where
  "written_env b now =
     (ledger_env b now (Inl TypeError))\<lparr>get_token_accounts_by_owner := (\<lambda>w. Inl AttributeError)\<rparr>"

definition gen_written :: payment_gen where
  "gen_written = gen2\<lparr>gen_private_key := Inl AttributeError\<rparr>"

definition mgen_written :: merchant_gen where
  "mgen_written = mgen1\<lparr>gen_default_private_key := Inl AttributeError\<rparr>"

section \<open>Basic facts\<close>

lemma trace_emit [simp]: "trace (emit es s) = trace s @ es"
  by (simp add: emit_def)

lemma transactions_emit [simp]: "transactions (emit es s) = transactions s"
  by (simp add: emit_def)

lemma merchants_emit [simp]: "merchants (emit es s) = merchants s"
  by (simp add: emit_def)

lemma emit_emit [simp]: "emit es (emit ds s) = emit (ds @ es) s"
  by (simp add: emit_def)

lemma new_effects_emit [simp]: "new_effects s (emit es s) = es"
  by (simp add: new_effects_def)

lemma new_effects_self [simp]: "new_effects s s = []"
  by (simp add: new_effects_def)

text \<open>The only effect of \<open>send_webhook_try\<close> is at most one delivery.\<close>

lemma send_webhook_try_cases:
  "send_webhook_try e t s = Inr s
   \<or> (\<exists>x. send_webhook_try e t s = Inl (x, s))
   \<or> (\<exists>url. url \<noteq> [] \<and> send_webhook_try e t s = Inr (emit [Http_post url (webhook_payload t)] s))"
  by (auto simp: send_webhook_try_def Let_def split: option.splits sum.splits)

lemma send_webhook_Some_cases:
  "\<exists>es. send_webhook_to_merchant e (Some t) s = Inr (emit (Notifier_called (Some t) # es) s)
      \<and> (\<forall>x\<in>set es. (\<exists>url. x = Http_post url (webhook_payload t)) \<or> (\<exists>y. x = Print_webhook_error (id_tx t) y))"
  using send_webhook_try_cases [of e t "emit [Notifier_called (Some t)] s"]
  by (auto simp: send_webhook_to_merchant_def Let_def)

lemma send_webhook_None:
  "send_webhook_to_merchant e None s = Inl (TypeError, emit [Notifier_called None] s)"
  by (simp add: send_webhook_to_merchant_def Let_def)


text \<open>The branch of the check that reaches the update.\<close>

lemma check_try_not_reached:
  "\<not> (\<exists>b. observed_balance e t = Inr (Some b) \<and> amount t \<le> b) \<Longrightarrow>
   check_payment_received_try e t s = Inr s \<or> (\<exists>x. check_payment_received_try e t s = Inl (x, s))"
  by (auto simp: check_payment_received_try_def observed_balance_def split: sum.splits list.splits option.splits if_splits)

lemma check_try_reached:
  "observed_balance e t = Inr (Some b) \<Longrightarrow> amount t \<le> b \<Longrightarrow>
   check_payment_received_try e t s =
     (if \<not> db_update_ok e then Inl (DbError, s)
      else if \<not> db_find_ok e
        then Inl (DbError, s\<lparr>transactions := update_one_by_id (id_tx t) (confirm (utcnow e)) (transactions s)\<rparr>)
        else send_webhook_to_merchant e
               (find_one_by_id (id_tx t) (update_one_by_id (id_tx t) (confirm (utcnow e)) (transactions s)))
               (s\<lparr>transactions := update_one_by_id (id_tx t) (confirm (utcnow e)) (transactions s)\<rparr>))"
  by (auto simp: check_payment_received_try_def observed_balance_def Let_def split: sum.splits list.splits option.splits if_splits)

lemma check_cases:
  "check_payment_received e t s = s
   \<or> (\<exists>x. check_payment_received e t s = emit [Print_check_error (id_tx t) x] s)
   \<or> ((\<exists>b. observed_balance e t = Inr (Some b) \<and> amount t \<le> b) \<and> db_update_ok e \<and>
       (\<not> db_find_ok e \<and> check_payment_received e t s
          = emit [Print_check_error (id_tx t) DbError]
              (s\<lparr>transactions := update_one_by_id (id_tx t) (confirm (utcnow e)) (transactions s)\<rparr>)
        \<or> db_find_ok e \<and> (\<exists>es. check_payment_received e t s
          = emit (Notifier_called (find_one_by_id (id_tx t)
                    (update_one_by_id (id_tx t) (confirm (utcnow e)) (transactions s))) # es)
              (s\<lparr>transactions := update_one_by_id (id_tx t) (confirm (utcnow e)) (transactions s)\<rparr>)
          \<and> (\<forall>x\<in>set es.
                (\<exists>url u. find_one_by_id (id_tx t)
                    (update_one_by_id (id_tx t) (confirm (utcnow e)) (transactions s)) = Some u
                    \<and> x = Http_post url (webhook_payload u))
                \<or> (\<exists>i y. x = Print_webhook_error i y)
                \<or> (\<exists>y. x = Print_check_error (id_tx t) y)))))"
proof (cases "\<exists>b. observed_balance e t = Inr (Some b) \<and> amount t \<le> b")
  case False
  from check_try_not_reached [OF False, of s]
  show ?thesis
    by (auto simp: check_payment_received_def)
next
  case True
  then obtain b where b: "observed_balance e t = Inr (Some b)" "amount t \<le> b"
    by blast
  let ?txs = "update_one_by_id (id_tx t) (confirm (utcnow e)) (transactions s)"
  let ?s1 = "s\<lparr>transactions := ?txs\<rparr>"
  let ?ok = "\<lambda>x. (\<exists>url u. find_one_by_id (id_tx t) ?txs = Some u \<and> x = Http_post url (webhook_payload u))
                \<or> (\<exists>i y. x = Print_webhook_error i y)
                \<or> (\<exists>y. x = Print_check_error (id_tx t) y)"
  note red = check_try_reached [OF b, of s]
  show ?thesis
  proof (cases "db_update_ok e")
    case False
    then have "check_payment_received e t s = emit [Print_check_error (id_tx t) DbError] s"
      by (simp add: check_payment_received_def red)
    then show ?thesis
      by blast
  next
    case upd: True
    show ?thesis
    proof (cases "db_find_ok e")
      case False
      with upd have "check_payment_received e t s = emit [Print_check_error (id_tx t) DbError] ?s1"
        by (simp add: check_payment_received_def red)
      with True False upd show ?thesis
        by blast
    next
      case fnd: True
      have "\<exists>es. check_payment_received e t s = emit (Notifier_called (find_one_by_id (id_tx t) ?txs) # es) ?s1
          \<and> (\<forall>x\<in>set es. ?ok x)"
      proof (cases "find_one_by_id (id_tx t) ?txs")
        case None
        with upd fnd have "check_payment_received e t s
            = emit (Notifier_called (find_one_by_id (id_tx t) ?txs) # [Print_check_error (id_tx t) TypeError]) ?s1"
          by (simp add: check_payment_received_def red send_webhook_None)
        moreover have "\<forall>x\<in>set [Print_check_error (id_tx t) TypeError :: 'a effect]. ?ok x"
          by simp
        ultimately show ?thesis
          by blast
      next
        case (Some u)
        from send_webhook_Some_cases [of e u ?s1] obtain es where
          es: "send_webhook_to_merchant e (Some u) ?s1 = Inr (emit (Notifier_called (Some u) # es) ?s1)"
            "\<forall>x\<in>set es. (\<exists>url. x = Http_post url (webhook_payload u)) \<or> (\<exists>y. x = Print_webhook_error (id_tx u) y)"
          by blast
        from upd fnd Some es(1) have "check_payment_received e t s
            = emit (Notifier_called (find_one_by_id (id_tx t) ?txs) # es) ?s1"
          by (simp add: check_payment_received_def red)
        moreover from es(2) Some have "\<forall>x\<in>set es. ?ok x"
          by auto
        ultimately show ?thesis
          by blast
      qed
      with True upd fnd show ?thesis
        by blast
    qed
  qed
qed

subsection \<open>The collection operations\<close>

lemma length_update_one_by_id [simp]: "length (update_one_by_id i f ts) = length ts"
  by (induction ts) auto

lemma id_tx_confirm [simp]: "id_tx (confirm now t) = id_tx t"
  and status_confirm [simp]: "status (confirm now t) = ''confirmed''"
  and confirmed_at_confirm [simp]: "confirmed_at (confirm now t) = Some now"
  and amount_confirm [simp]: "amount (confirm now t) = amount t"
  and payment_id_confirm [simp]: "payment_id (confirm now t) = payment_id t"
  by (simp_all add: confirm_def)

lemma nth_update_one_by_id:
  "k < length ts \<Longrightarrow> update_one_by_id i f ts ! k = ts ! k \<or> update_one_by_id i f ts ! k = f (ts ! k)"
proof (induction ts arbitrary: k)
  case Nil
  then show ?case by simp
next
  case (Cons t ts)
  then show ?case
    by (cases k) auto
qed

lemma find_one_update_one:
  "find_one_by_id i ts = Some r \<Longrightarrow> find_one_by_id i (update_one_by_id i (confirm now) ts) = Some (confirm now r)"
  by (induction ts) (auto simp: find_one_by_id_def)

lemma find_one_update_none:
  "find_one_by_id i ts = None \<Longrightarrow> update_one_by_id i f ts = ts"
  by (induction ts) (auto simp: find_one_by_id_def split: if_splits)

subsection \<open>What a check does to the store\<close>

lemma check_transactions:
  "transactions (check_payment_received e t s) = transactions s
   \<or> transactions (check_payment_received e t s)
       = update_one_by_id (id_tx t) (confirm (utcnow e)) (transactions s)"
  using check_cases [of e t s] by (elim disjE conjE exE) simp_all

lemma check_merchants [simp]: "merchants (check_payment_received e t s) = merchants s"
  using check_cases [of e t s] by (elim disjE conjE exE) simp_all

lemma check_trace:
  "\<exists>es. trace (check_payment_received e t s) = trace s @ es \<and> (\<forall>x\<in>set es. \<not> is_sleep x)"
  using check_cases [of e t s]
  apply (elim disjE conjE exE)
     apply (simp_all add: is_sleep_def)
  apply auto
  done

section \<open>Invariants of the store\<close>

lemma check_batch_induct_rule:
  assumes "\<And>e t s. P s \<Longrightarrow> P (check_payment_received e t s)"
  shows "P s \<Longrightarrow> P (check_batch es k ts s)"
  using assms by (induction ts arbitrary: k s) auto

lemma listener_pass_cases:
  "listener_pass w s = emit [Sleep 15] (check_batch (check_env w) 0 (pending_txs s) s)
   \<or> listener_pass w s = emit [Print_listener_error DbError, Sleep 30] s"
  by (simp add: listener_pass_def payment_listener_try_def)

lemma coherent_confirm [simp]: "coherent (confirm now t)"
  by (simp add: coherent_def confirm_def)

lemma coherent_new_transaction [simp]: "coherent (new_transaction g k payment_req m)"
  by (simp add: coherent_def new_transaction_def)

lemma coherent_payment_of [simp]: "coherent (payment_of t) = coherent t"
  by (simp add: coherent_def payment_of_def)

lemma coherent_update_one:
  "\<forall>t\<in>set ts. coherent t \<Longrightarrow> \<forall>t\<in>set (update_one_by_id i (confirm now) ts). coherent t"
  by (induction ts) auto

lemma coherent_check:
  assumes "\<forall>x\<in>set (transactions s). coherent x"
  shows "\<forall>x\<in>set (transactions (check_payment_received e t s)). coherent x"
  using check_transactions [of e t s] coherent_update_one [OF assms] assms
  by auto

lemma coherent_check_batch:
  "\<forall>x\<in>set (transactions s). coherent x \<Longrightarrow>
   \<forall>x\<in>set (transactions (check_batch es k ts s)). coherent x"
  by (rule check_batch_induct_rule) (rule coherent_check)

lemma coherent_listener_pass:
  assumes "\<forall>x\<in>set (transactions s). coherent x"
  shows "\<forall>x\<in>set (transactions (listener_pass w s)). coherent x"
  using listener_pass_cases [of w s] coherent_check_batch [OF assms] assms
  by (elim disjE) simp_all

lemma coherent_exec:
  assumes "\<forall>x\<in>set (transactions s). coherent x"
  shows "\<forall>x\<in>set (transactions (exec c s)). coherent x"
proof (cases c)
  case (Create_payment g payment_req m)
  with assms show ?thesis
    by (simp add: create_payment_def Let_def split: sum.splits)
next
  case (Create_merchant K g nm url admin_key)
  with assms show ?thesis
    by (simp add: create_merchant_def Let_def split: sum.splits)
next
  case (Check_payment e t)
  with coherent_check [OF assms] show ?thesis
    by simp
next
  case (Listener_pass w)
  with coherent_listener_pass [OF assms] show ?thesis
    by simp
qed (use assms in simp_all)

lemma coherent_run:
  "\<forall>x\<in>set (transactions s). coherent x \<Longrightarrow> \<forall>x\<in>set (transactions (run cs s)). coherent x"
proof (induction cs arbitrary: s)
  case Nil
  then show ?case by simp
next
  case (Cons c cs)
  from Cons.IH [OF coherent_exec [OF Cons.prems]] show ?case
    by simp
qed


lemma find_Some_set: "find P xs = Some x \<Longrightarrow> x \<in> set xs"
  by (induction xs) (auto split: if_splits)

text \<open>
  C5. In every state the system reaches from the empty store, by any sequence of
  creations, reads, checks and listener passes, each stored payment has a confirmation
  time exactly when its status is confirmed; and so has every payment that
  \<open>get_payment\<close> or \<open>list_payments\<close> answers with in such a state.
\<close>

theorem confirmed_at_iff_confirmed:
  "(\<forall>t\<in>set (transactions (run cs init_state)).
      (confirmed_at t \<noteq> None) = (status t = ''confirmed''))
   \<and> (\<forall>pid m r. get_payment pid m (run cs init_state) = Inr r \<longrightarrow>
        (confirmed_at (payment r) \<noteq> None) = (status (payment r) = ''confirmed''))
   \<and> (\<forall>st limit offset m r. list_payments st limit offset m (run cs init_state) = Inr r \<longrightarrow>
        (\<forall>p\<in>set (payments r). (confirmed_at p \<noteq> None) = (status p = ''confirmed'')))"
proof -
  let ?s = "run cs init_state"
  have "\<forall>x\<in>set (transactions (init_state :: 'a state)). coherent x"
    by (simp add: init_state_def)
  then have inv: "\<forall>x\<in>set (transactions ?s). coherent x"
    by (rule coherent_run)
  have get: "coherent (payment r)" if "get_payment pid m ?s = Inr r" for pid m r
  proof -
    from that obtain t where "t \<in> set (transactions ?s)" "payment r = payment_of t"
      by (auto simp: get_payment_def split: option.splits dest: find_Some_set)
    with inv show ?thesis
      by simp
  qed
  have lst: "coherent p"
    if "list_payments st limit offset m ?s = Inr r" "p \<in> set (payments r)" for st limit offset m r p
  proof -
    from that obtain t where "t \<in> set (transactions ?s)" "p = payment_of t"
      by (auto simp: list_payments_def Let_def split: if_splits dest!: in_set_takeD in_set_dropD)
    with inv show ?thesis
      by simp
  qed
  from inv get lst show ?thesis
    unfolding coherent_def by blast
qed

theorem confirmed_at_iff_confirmed_witness:
  "confirm 5 tx1 \<in> set (transactions (run [Create_payment gen1 order1 shop,
        Create_payment gen2 order1 shop, Check_payment (ledger_env 10 5 (Inr 200)) tx1] init_state))
   \<and> (confirmed_at (confirm 5 tx1) \<noteq> None) = (status (confirm 5 tx1) = ''confirmed'')
   \<and> status (confirm 5 tx1) = ''confirmed''
   \<and> new_transaction gen2 ''S2'' order1 shop \<in> set (transactions (run [Create_payment gen1 order1 shop,
        Create_payment gen2 order1 shop, Check_payment (ledger_env 10 5 (Inr 200)) tx1] init_state))
   \<and> (confirmed_at (new_transaction gen2 ''S2'' order1 shop) \<noteq> None)
       = (status (new_transaction gen2 ''S2'' order1 shop) = ''confirmed'')
   \<and> status (new_transaction gen2 ''S2'' order1 shop) = ''pending''"
proof -
  let ?cs = "[Create_payment gen1 order1 shop, Create_payment gen2 order1 shop,
              Check_payment (ledger_env 10 5 (Inr 200)) tx1]"
  have run: "transactions (run ?cs init_state) = [confirm 5 tx1, new_transaction gen2 ''S2'' order1 shop]"
    by (simp add: init_state_def create_payment_def Let_def tx1_def
        check_payment_received_def check_payment_received_try_def ledger_env_def
        new_transaction_def gen1_def gen2_def order1_def shop_def
        find_one_by_id_def send_webhook_to_merchant_def send_webhook_try_def
        find_merchant_by_id_def emit_def)
  have a: "confirm 5 tx1 \<in> set (transactions (run ?cs init_state))"
    and b: "new_transaction gen2 ''S2'' order1 shop \<in> set (transactions (run ?cs init_state))"
    unfolding run by simp_all
  note T = conjunct1 [OF confirmed_at_iff_confirmed [of ?cs]]
  from bspec [OF T a] bspec [OF T b] a b show ?thesis
    by (simp add: new_transaction_def)
qed

section \<open>Monotonic status\<close>

lemma keeps_confirmed_refl [simp]: "keeps_confirmed s s"
  by (simp add: keeps_confirmed_def)

lemma keeps_confirmed_trans:
  "keeps_confirmed s s' \<Longrightarrow> keeps_confirmed s' s'' \<Longrightarrow> keeps_confirmed s s''"
  unfolding keeps_confirmed_def
proof (intro conjI allI impI)
  assume a: "length (transactions s) \<le> length (transactions s') \<and>
      (\<forall>k<length (transactions s).
         id_tx (transactions s' ! k) = id_tx (transactions s ! k) \<and>
         (status (transactions s ! k) = ''confirmed'' \<longrightarrow>
          status (transactions s' ! k) = ''confirmed''))"
    and b: "length (transactions s') \<le> length (transactions s'') \<and>
      (\<forall>k<length (transactions s').
         id_tx (transactions s'' ! k) = id_tx (transactions s' ! k) \<and>
         (status (transactions s' ! k) = ''confirmed'' \<longrightarrow>
          status (transactions s'' ! k) = ''confirmed''))"
  from a b show "length (transactions s) \<le> length (transactions s'')"
    by linarith
  fix k assume k: "k < length (transactions s)"
  with a have k': "k < length (transactions s')"
    by linarith
  from a k b k' show "id_tx (transactions s'' ! k) = id_tx (transactions s ! k)"
    by simp
  assume "status (transactions s ! k) = ''confirmed''"
  with a k b k' show "status (transactions s'' ! k) = ''confirmed''"
    by simp
qed

lemma keeps_confirmed_update:
  "keeps_confirmed s (s\<lparr>transactions := update_one_by_id i (confirm now) (transactions s)\<rparr>)"
  unfolding keeps_confirmed_def
proof (intro conjI allI impI)
  fix k assume k: "k < length (transactions s)"
  from nth_update_one_by_id [OF k, of i "confirm now"]
  show "id_tx (transactions (s\<lparr>transactions := update_one_by_id i (confirm now) (transactions s)\<rparr>) ! k)
        = id_tx (transactions s ! k)"
    by auto
  assume "status (transactions s ! k) = ''confirmed''"
  with nth_update_one_by_id [OF k, of i "confirm now"]
  show "status (transactions (s\<lparr>transactions := update_one_by_id i (confirm now) (transactions s)\<rparr>) ! k)
        = ''confirmed''"
    by auto
qed simp

lemma keeps_confirmed_transactions:
  "transactions s' = transactions s'' \<Longrightarrow> keeps_confirmed s s' \<Longrightarrow> keeps_confirmed s s''"
  by (simp add: keeps_confirmed_def)

lemma keeps_confirmed_check: "keeps_confirmed s (check_payment_received e t s)"
proof -
  from check_transactions [of e t s] show ?thesis
  proof
    assume "transactions (check_payment_received e t s) = transactions s"
    then show ?thesis
      by (simp add: keeps_confirmed_def)
  next
    assume "transactions (check_payment_received e t s)
       = update_one_by_id (id_tx t) (confirm (utcnow e)) (transactions s)"
    with keeps_confirmed_update [of s "id_tx t" "utcnow e"] show ?thesis
      by (simp add: keeps_confirmed_def)
  qed
qed

lemma keeps_confirmed_check_batch: "keeps_confirmed s (check_batch es k ts s)"
proof -
  have "keeps_confirmed s0 s \<Longrightarrow> keeps_confirmed s0 (check_batch es k ts s)" for s0
    by (rule check_batch_induct_rule) (blast intro: keeps_confirmed_trans keeps_confirmed_check)
  then show ?thesis
    by simp
qed

lemma keeps_confirmed_listener_pass: "keeps_confirmed s (listener_pass w s)"
  using listener_pass_cases [of w s] keeps_confirmed_check_batch [of s "check_env w" 0 "pending_txs s"]
  by (auto simp: keeps_confirmed_def)

lemma keeps_confirmed_exec: "keeps_confirmed s (exec c s)"
proof (cases c)
  case (Create_payment g payment_req m)
  then show ?thesis
    by (simp add: create_payment_def Let_def keeps_confirmed_def nth_append split: sum.splits)
next
  case (Create_merchant K g nm url admin_key)
  then show ?thesis
    by (simp add: create_merchant_def Let_def keeps_confirmed_def split: sum.splits)
next
  case (Check_payment e t)
  then show ?thesis
    by (simp add: keeps_confirmed_check)
next
  case (Listener_pass w)
  then show ?thesis
    by (simp add: keeps_confirmed_listener_pass)
qed simp_all

lemma keeps_confirmed_run: "keeps_confirmed s (run cs s)"
proof (induction cs arbitrary: s)
  case Nil
  then show ?case by simp
next
  case (Cons c cs)
  from keeps_confirmed_exec [of s c] Cons.IH [of "exec c s"] show ?case
    by (auto intro: keeps_confirmed_trans)
qed

text \<open>
  C6. A record that is confirmed stays confirmed, at its place in the store and with
  its id, through any sequence of operations of the system: creations, reads, checks
  (with any outcome of the ledger queries, the database calls and the webhook) and
  listener passes. No operation writes a status other than confirmed.
\<close>

theorem confirmed_never_reverts:
  assumes "k < length (transactions s)"
    and "status (transactions s ! k) = ''confirmed''"
  shows "k < length (transactions (run cs s))
       \<and> id_tx (transactions (run cs s) ! k) = id_tx (transactions s ! k)
       \<and> status (transactions (run cs s) ! k) = ''confirmed''"
  using keeps_confirmed_run [of s cs] assms
  unfolding keeps_confirmed_def by auto

lemma check_failed_webhook_example:
  "run [Check_payment (ledger_env 10 7 (Inl HttpError)) tx1] (shop_state\<lparr>transactions := [confirm 5 tx1]\<rparr>)
     = \<lparr>transactions = [confirm 7 tx1], merchants = [shop],
        trace = [Notifier_called (Some (confirm 7 tx1)),
                 Print_webhook_error ''u1'' HttpError]\<rparr>"
  by (simp add: check_payment_received_def check_payment_received_try_def ledger_env_def
      shop_state_def tx1_def new_transaction_def gen1_def order1_def shop_def Let_def
      find_one_by_id_def send_webhook_to_merchant_def send_webhook_try_def
      find_merchant_by_id_def emit_def confirm_def)

theorem confirmed_never_reverts_witness:
  "(0::nat) < length (transactions (shop_state\<lparr>transactions := [confirm 5 tx1]\<rparr>))
   \<and> status (transactions (shop_state\<lparr>transactions := [confirm 5 tx1]\<rparr>) ! 0) = ''confirmed''
   \<and> Print_webhook_error ''u1'' HttpError
       \<in> set (trace (run [Check_payment (ledger_env 10 7 (Inl HttpError)) tx1]
                       (shop_state\<lparr>transactions := [confirm 5 tx1]\<rparr>)))
   \<and> status (transactions (run [Check_payment (ledger_env 10 7 (Inl HttpError)) tx1]
                       (shop_state\<lparr>transactions := [confirm 5 tx1]\<rparr>)) ! 0) = ''confirmed''"
proof -
  let ?s = "shop_state\<lparr>transactions := [confirm 5 tx1]\<rparr>"
  have a: "(0::nat) < length (transactions ?s)"
    and b: "status (transactions ?s ! 0) = ''confirmed''"
    by simp_all
  have c: "Print_webhook_error ''u1'' HttpError
       \<in> set (trace (run [Check_payment (ledger_env 10 7 (Inl HttpError)) tx1] ?s))"
    unfolding check_failed_webhook_example by simp
  note T = confirmed_never_reverts [OF a b, of "[Check_payment (ledger_env 10 7 (Inl HttpError)) tx1]"]
  from a b c conjunct2 [OF conjunct2 [OF T]] show ?thesis
    by (intro conjI)
qed

section \<open>The listener\<close>

lemma check_batch_trace:
  "\<exists>es. trace (check_batch ws k ts s) = trace s @ es \<and> filter is_sleep es = []"
proof (induction ts arbitrary: k s)
  case Nil
  then show ?case by simp
next
  case (Cons t ts)
  from check_trace [of "ws k" t s] obtain es where
    es: "trace (check_payment_received (ws k) t s) = trace s @ es" "\<forall>x\<in>set es. \<not> is_sleep x"
    by blast
  from Cons.IH [of "Suc k" "check_payment_received (ws k) t s"] obtain es' where
    es': "trace (check_batch ws (Suc k) ts (check_payment_received (ws k) t s))
          = trace (check_payment_received (ws k) t s) @ es'" "filter is_sleep es' = []"
    by blast
  from es es' have "trace (check_batch ws k (t # ts) s) = trace s @ (es @ es')"
    and "filter is_sleep (es @ es') = []"
    by (simp_all add: filter_empty_conv)
  then show ?case
    by blast
qed

lemma listener_pass_trace:
  "\<exists>es. trace (listener_pass w s) = trace s @ es \<and> length (filter is_sleep es) = 1"
proof (cases "db_list_ok w")
  case True
  from check_batch_trace [of "check_env w" 0 "pending_txs s" s] obtain es where
    "trace (check_batch (check_env w) 0 (pending_txs s) s) = trace s @ es" "filter is_sleep es = []"
    by blast
  with True have "trace (listener_pass w s) = trace s @ (es @ [Sleep 15])"
    and "length (filter is_sleep (es @ [Sleep 15])) = 1"
    by (simp_all add: listener_pass_def payment_listener_try_def is_sleep_def)
  then show ?thesis
    by blast
next
  case False
  then have "trace (listener_pass w s) = trace s @ [Print_listener_error DbError, Sleep 30]"
    and "length (filter is_sleep [Print_listener_error DbError, Sleep 30 :: 'a effect]) = 1"
    by (simp_all add: listener_pass_def payment_listener_try_def is_sleep_def)
  then show ?thesis
    by blast
qed

lemma payment_listener_trace:
  "\<exists>es. trace (payment_listener n ws s) = trace s @ es \<and> length (filter is_sleep es) = n"
proof (induction n arbitrary: ws s)
  case 0
  then show ?case by simp
next
  case (Suc n)
  from listener_pass_trace [of "ws 0" s] obtain es where
    es: "trace (listener_pass (ws 0) s) = trace s @ es" "length (filter is_sleep es) = 1"
    by blast
  from Suc.IH [of "\<lambda>k. ws (Suc k)" "listener_pass (ws 0) s"] obtain es' where
    es': "trace (payment_listener n (\<lambda>k. ws (Suc k)) (listener_pass (ws 0) s))
          = trace (listener_pass (ws 0) s) @ es'" "length (filter is_sleep es') = n"
    by blast
  from es es' have "trace (payment_listener (Suc n) ws s) = trace s @ (es @ es')"
    and "length (filter is_sleep (es @ es')) = Suc n"
    by simp_all
  then show ?case
    by blast
qed

text \<open>
  C7. A pass whose query for the pending records succeeds checks the batch and then
  sleeps 15; a pass whose query raises prints the exception and sleeps 30, which is
  longer. An exception raised inside the check of one record is printed by that check,
  which returns, so the batch goes on and the pass ends with the sleep of 15. The loop
  never stops: whatever the ledger, the database and the webhooks do, the first \<open>n\<close>
  passes all complete, each with one sleep.
\<close>

theorem listener_sleeps_and_continues:
  "(db_list_ok w \<longrightarrow>
      listener_pass w s = emit [Sleep 15] (check_batch (check_env w) 0 (pending_txs s) s))
   \<and> (\<not> db_list_ok w \<longrightarrow>
      listener_pass w s = emit [Print_listener_error DbError, Sleep 30] s)
   \<and> last (trace (listener_pass w s)) = Sleep (if db_list_ok w then 15 else 30)
   \<and> (15::nat) < 30
   \<and> (\<forall>x s1. check_payment_received_try e t s = Inl (x, s1) \<longrightarrow>
        check_payment_received e t s = emit [Print_check_error (id_tx t) x] s1)
   \<and> length (filter is_sleep (new_effects s (payment_listener n ws s))) = n"
proof (intro conjI)
  from payment_listener_trace [of n ws s]
  show "length (filter is_sleep (new_effects s (payment_listener n ws s))) = n"
    by (auto simp: new_effects_def)
qed (simp_all add: listener_pass_def payment_listener_try_def check_payment_received_def)

lemma listener_example:
  "payment_listener (Suc (Suc 0))
       (\<lambda>k. if k = 0 then world_of False bad_key_env else world_of True bad_key_env) shop_state
     = emit [Print_listener_error DbError, Sleep 30,
             Print_check_error ''u1'' ValueError, Sleep 15] shop_state"
  by (simp add: listener_pass_def payment_listener_try_def world_of_def bad_key_env_def
      ledger_env_def pending_txs_def shop_state_def tx1_def new_transaction_def gen1_def
      check_payment_received_def check_payment_received_try_def emit_def)

theorem listener_sleeps_and_continues_witness:
  "\<not> db_list_ok (world_of False bad_key_env)
   \<and> listener_pass (world_of False bad_key_env) shop_state
       = emit [Print_listener_error DbError, Sleep 30] shop_state
   \<and> db_list_ok (world_of True bad_key_env)
   \<and> check_payment_received_try bad_key_env tx1 shop_state = Inl (ValueError, shop_state)
   \<and> check_payment_received bad_key_env tx1 shop_state
       = emit [Print_check_error (id_tx tx1) ValueError] shop_state
   \<and> listener_pass (world_of True bad_key_env) shop_state
       = emit [Sleep 15] (check_batch (check_env (world_of True bad_key_env)) 0
                            (pending_txs shop_state) shop_state)
   \<and> payment_listener (Suc (Suc 0))
       (\<lambda>k. if k = 0 then world_of False bad_key_env else world_of True bad_key_env) shop_state
       = emit [Print_listener_error DbError, Sleep 30,
               Print_check_error ''u1'' ValueError, Sleep 15] shop_state
   \<and> length (filter is_sleep (new_effects shop_state (payment_listener (Suc (Suc 0))
       (\<lambda>k. if k = 0 then world_of False bad_key_env else world_of True bad_key_env) shop_state)))
       = Suc (Suc 0)"
proof -
  have a: "\<not> db_list_ok (world_of False bad_key_env)"
    and b: "db_list_ok (world_of True bad_key_env)"
    by (simp_all add: world_of_def)
  have c: "check_payment_received_try bad_key_env tx1 shop_state = Inl (ValueError, shop_state)"
    by (simp add: check_payment_received_try_def bad_key_env_def)
  note T1 = listener_sleeps_and_continues [of "world_of False bad_key_env" shop_state bad_key_env tx1
      "Suc (Suc 0)" "\<lambda>k. if k = 0 then world_of False bad_key_env else world_of True bad_key_env"]
  note T2 = listener_sleeps_and_continues [of "world_of True bad_key_env" shop_state bad_key_env tx1
      "Suc (Suc 0)" "\<lambda>k. if k = 0 then world_of False bad_key_env else world_of True bad_key_env"]
  from a b c listener_example
    mp [OF conjunct1 [OF conjunct2 [OF T1]] a]
    mp [OF conjunct1 [OF T2] b]
    mp [OF spec [OF spec [OF conjunct1 [OF conjunct2 [OF conjunct2 [OF conjunct2 [OF conjunct2 [OF T1]]]]]]] c]
    conjunct2 [OF conjunct2 [OF conjunct2 [OF conjunct2 [OF conjunct2 [OF T1]]]]]
  show ?thesis
    by (intro conjI)
qed

section \<open>The checks as the source writes them\<close>








text \<open>
  C2. The code does not do what the claim says, by a slip in line 316. A stored
  pending record requests 10 and the ledger holds 10 for its address. The query for the
  token accounts raises before the ledger is asked, the handler of the check prints the
  exception, and the record stays pending: after two passes of the listener it is
  still pending, the notifier has not been called, and each pass has printed an error.
  The same happens whatever the ledger holds, also nothing at all.
\<close>

theorem check_raises_before_ledger_answer:
  "status tx1 = ''pending'' \<and> amount tx1 = 10
   \<and> get_token_account_balance (written_env 10 5) ''A1'' = Inr (Some 10)
   \<and> check_payment_received (written_env 10 5) tx1 shop_state
       = emit [Print_check_error ''u1'' AttributeError] shop_state
   \<and> check_payment_received (written_env 0 5) tx1 shop_state
       = emit [Print_check_error ''u1'' AttributeError] shop_state
   \<and> payment_listener (Suc (Suc 0)) (\<lambda>k. world_of True (written_env 10 5)) shop_state
       = emit [Print_check_error ''u1'' AttributeError, Sleep 15,
               Print_check_error ''u1'' AttributeError, Sleep 15] shop_state
   \<and> transactions shop_state = [tx1]"
  by (simp add: listener_pass_def payment_listener_try_def world_of_def pending_txs_def
      check_payment_received_def check_payment_received_try_def written_env_def ledger_env_def
      shop_state_def tx1_def new_transaction_def gen1_def order1_def emit_def)

section \<open>Creation\<close>



section \<open>The notifier\<close>




section \<open>The webhook payload\<close>

lemma in_new_effects_emit [simp]:
  "new_effects s (emit es (s\<lparr>transactions := txs\<rparr>)) = es"
  by (simp add: new_effects_def emit_def)

lemma payment_of_confirm:
  "payment_of (confirm now r) = (payment_of r)\<lparr>status := ''confirmed'', confirmed_at := Some now\<rparr>"
  by (simp add: payment_of_def confirm_def)

lemma check_posts:
  assumes "Http_post url p \<in> set (new_effects s (check_payment_received e t s))"
  shows "\<exists>r. find_one_by_id (id_tx t) (transactions s) = Some r
       \<and> find_one_by_id (id_tx t) (transactions (check_payment_received e t s)) = Some (confirm (utcnow e) r)
       \<and> p = webhook_payload (confirm (utcnow e) r)"
proof -
  let ?txs = "update_one_by_id (id_tx t) (confirm (utcnow e)) (transactions s)"
  from check_cases [of e t s] assms
  obtain es u where c: "check_payment_received e t s = emit (Notifier_called (find_one_by_id (id_tx t) ?txs) # es) (s\<lparr>transactions := ?txs\<rparr>)"
    and u: "find_one_by_id (id_tx t) ?txs = Some u" "p = webhook_payload u"
    by (elim disjE conjE exE) auto
  show ?thesis
  proof (cases "find_one_by_id (id_tx t) (transactions s)")
    case None
    then have "?txs = transactions s"
      by (rule find_one_update_none)
    with None u show ?thesis
      by simp
  next
    case (Some r)
    then have "find_one_by_id (id_tx t) ?txs = Some (confirm (utcnow e) r)"
      by (rule find_one_update_one)
    with Some u c show ?thesis
      by simp
  qed
qed

text \<open>
  A payload that a check delivers is built from the stored record as it is read back
  right after the update, and from nothing else.
\<close>

lemma delivered_payload_of_record:
  assumes "Http_post url p \<in> set (new_effects s (check_payment_received e t s))"
  shows "\<exists>r. find_one_by_id (id_tx t) (transactions s) = Some r
       \<and> find_one_by_id (id_tx t) (transactions (check_payment_received e t s))
           = Some (confirm (utcnow e) r)
       \<and> p = webhook_payload (confirm (utcnow e) r)
       \<and> event p = ''payment.confirmed''
       \<and> payment_hook p = payment_of (confirm (utcnow e) r)
       \<and> amount (payment_hook p) = amount r
       \<and> payment_id (payment_hook p) = payment_id r
       \<and> id_tx (payment_hook p) = id_tx r
       \<and> status (payment_hook p) = ''confirmed''
       \<and> confirmed_at (payment_hook p) = Some (utcnow e)"
proof -
  from check_posts [OF assms] obtain r where
    r: "find_one_by_id (id_tx t) (transactions s) = Some r"
       "find_one_by_id (id_tx t) (transactions (check_payment_received e t s)) = Some (confirm (utcnow e) r)"
       "p = webhook_payload (confirm (utcnow e) r)"
    by blast
  from r(3) have "event p = ''payment.confirmed''"
    and "payment_hook p = payment_of (confirm (utcnow e) r)"
    and "amount (payment_hook p) = amount r"
    and "payment_id (payment_hook p) = payment_id r"
    and "id_tx (payment_hook p) = id_tx r"
    and "status (payment_hook p) = ''confirmed''"
    and "confirmed_at (payment_hook p) = Some (utcnow e)"
    by (simp_all add: webhook_payload_def payment_of_def confirm_def)
  with r show ?thesis
    by blast
qed

text \<open>
  C9. The code does not do what the claim says, by a slip in line 242. The notifier is
  called for a confirmed record of a merchant with a webhook url. The payload is
  built, but \<open>client.post\<close> raises \<open>TypeError\<close> when it encodes it (the dictionary holds
  \<open>datetime\<close> objects): nothing is serialized, nothing is delivered, and the notifier
  prints the exception.
\<close>

theorem webhook_post_raises:
  "status (confirm 5 tx1) = ''confirmed''
   \<and> find_merchant_by_id (merchant_id (confirm 5 tx1)) (merchants shop_state) = Some shop
   \<and> webhook_url shop = Some ''http://shop/hook''
   \<and> http_post (written_env 10 5) ''http://shop/hook'' = Inl TypeError
   \<and> send_webhook_to_merchant (written_env 10 5) (Some (confirm 5 tx1)) shop_state
     = Inr (emit [Notifier_called (Some (confirm 5 tx1)),
                  Print_webhook_error ''u1'' TypeError] shop_state)"
  by (simp add: send_webhook_to_merchant_def send_webhook_try_def written_env_def ledger_env_def
      find_merchant_by_id_def shop_state_def shop_def tx1_def new_transaction_def gen1_def
      emit_def confirm_def)

section \<open>Private keys\<close>

lemma payment_of_scrub [simp]: "payment_of (scrub t) = payment_of t"
  by (simp add: payment_of_def scrub_def)

lemma scrub_fields [simp]:
  "payment_id (scrub t) = payment_id t" "merchant_id (scrub t) = merchant_id t"
  "status (scrub t) = status t" "created_at (scrub t) = created_at t"
  by (simp_all add: scrub_def)

lemma find_map_scrub:
  "(\<And>t. P (scrub t) = P t) \<Longrightarrow> find P (map scrub ts) = map_option scrub (find P ts)"
  by (induction ts) auto

lemma filter_map_scrub:
  "(\<And>t. P (scrub t) = P t) \<Longrightarrow> filter P (map scrub ts) = map scrub (filter P ts)"
  by (induction ts) auto

lemma insort_map_scrub:
  "insort_key created_at (scrub t) (map scrub ts) = map scrub (insort_key created_at t ts)"
  by (induction ts) auto

lemma sort_map_scrub:
  "sort_key created_at (map scrub ts) = map scrub (sort_key created_at ts)"
  by (induction ts) (auto simp: insort_map_scrub)

lemma list_query_scrub [simp]: "list_query st m (scrub t) = list_query st m t"
  by (simp add: list_query_def split: option.splits)

lemma map_payment_of_scrub: "map payment_of (map scrub ts) = map payment_of ts"
  by simp

lemma get_payment_scrub:
  assumes "same_but_keys s1 s2"
  shows "get_payment pid m s1 = get_payment pid m s2"
proof -
  let ?P = "\<lambda>t. payment_id t = pid \<and> merchant_id t = merchant_id_m m"
  have "map_option scrub (find ?P (transactions s1)) = map_option scrub (find ?P (transactions s2))"
    using assms find_map_scrub [of ?P "transactions s1"] find_map_scrub [of ?P "transactions s2"]
    by (simp add: same_but_keys_def)
  then have "map_option payment_of (find ?P (transactions s1)) = map_option payment_of (find ?P (transactions s2))"
    by (cases "find ?P (transactions s1)"; cases "find ?P (transactions s2)")
       (auto dest: arg_cong [where f = payment_of])
  then show ?thesis
    by (cases "find ?P (transactions s1)"; cases "find ?P (transactions s2)")
       (simp_all add: get_payment_def)
qed

lemma list_payments_scrub:
  assumes "same_but_keys s1 s2"
  shows "list_payments st limit offset m s1 = list_payments st limit offset m s2"
proof -
  let ?sel = "\<lambda>ts. take (nat limit) (drop (nat offset) (rev (sort_key created_at (filter (list_query st m) ts))))"
  have sel: "map scrub (?sel ts) = ?sel (map scrub ts)" for ts :: "'a transaction list"
    by (simp add: filter_map_scrub sort_map_scrub take_map drop_map rev_map)
  have flt: "map scrub (filter (list_query st m) (transactions s1))
           = map scrub (filter (list_query st m) (transactions s2))"
    using assms by (simp add: same_but_keys_def filter_map_scrub [symmetric])
  from arg_cong [OF flt, of length]
  have len: "length (filter (list_query st m) (transactions s1))
           = length (filter (list_query st m) (transactions s2))"
    by simp
  have "map scrub (?sel (transactions s1)) = map scrub (?sel (transactions s2))"
    using assms by (simp only: sel same_but_keys_def)
  from arg_cong [OF this, of "map payment_of"]
  have "map payment_of (?sel (transactions s1)) = map payment_of (?sel (transactions s2))"
    by (simp only: map_payment_of_scrub)
  with len show ?thesis
    by (simp add: list_payments_def Let_def)
qed


text \<open>
  C10. The code does not do what the claim says, by the slip of lines 109 and 267: the
  read of \<open>secret_key\<close> raises before \<open>insert_one\<close>, so a create stores no key, and no
  record, and answers with an error. What the claim says of the answers holds: the
  answer of \<open>create_payment\<close> is the same whatever the text of the key, \<open>get_payment\<close> and
  \<open>list_payments\<close> answer the same on two stores that differ only in the stored keys,
  and the answer of \<open>create_merchant\<close> is the same whatever the text of the key and has
  no entry \<open>default_wallet_private_key\<close>.
\<close>

theorem create_raises_before_insert:
  "create_payment gen_written payment_req m s = Inl AttributeError
   \<and> exec (Create_payment gen_written payment_req m) s = s
   \<and> create_merchant (Some admin_key) mgen_written nm url admin_key s = Inl AttributeError
   \<and> exec (Create_merchant (Some admin_key) mgen_written nm url admin_key) s = s
   \<and> map_sum id fst (create_payment (g\<lparr>gen_private_key := Inr k\<rparr>) payment_req m s)
     = map_sum id fst (create_payment (g\<lparr>gen_private_key := Inr k'\<rparr>) payment_req m s)
   \<and> (same_but_keys s1 s2 \<longrightarrow> get_payment pid m s1 = get_payment pid m s2)
   \<and> (same_but_keys s1 s2 \<longrightarrow>
        list_payments st limit offset m s1 = list_payments st limit offset m s2)
   \<and> map_sum id fst (create_merchant K (mg\<lparr>gen_default_private_key := Inr k\<rparr>) nm url admin_key s)
     = map_sum id fst (create_merchant K (mg\<lparr>gen_default_private_key := Inr k'\<rparr>) nm url admin_key s)
   \<and> ''default_wallet_private_key''
       \<notin> (case create_merchant K mg nm url admin_key s of
            Inl x \<Rightarrow> {}
          | Inr (r, s') \<Rightarrow> fst ` set r)"
proof (intro conjI)
  show "same_but_keys s1 s2 \<longrightarrow> get_payment pid m s1 = get_payment pid m s2"
    by (simp add: get_payment_scrub)
  show "same_but_keys s1 s2 \<longrightarrow>
        list_payments st limit offset m s1 = list_payments st limit offset m s2"
    by (simp add: list_payments_scrub)
  show "''default_wallet_private_key''
       \<notin> (case create_merchant K mg nm url admin_key s of
            Inl x \<Rightarrow> {}
          | Inr (r, s') \<Rightarrow> fst ` set r)"
    by (auto simp: create_merchant_def merchant_items_def Let_def split: sum.splits if_splits)
qed (simp_all add: create_payment_def new_transaction_def Let_def create_merchant_def
       merchant_items_def gen_written_def mgen_written_def)

theorem create_raises_before_insert_witness:
  "same_but_keys shop_state (shop_state\<lparr>transactions := [tx1\<lparr>wallet_private_key := ''S9''\<rparr>]\<rparr>)
   \<and> get_payment ''order-1'' shop shop_state
     = get_payment ''order-1'' shop (shop_state\<lparr>transactions := [tx1\<lparr>wallet_private_key := ''S9''\<rparr>]\<rparr>)
   \<and> list_payments None 10 0 shop shop_state
     = list_payments None 10 0 shop (shop_state\<lparr>transactions := [tx1\<lparr>wallet_private_key := ''S9''\<rparr>]\<rparr>)
   \<and> create_payment gen_written order1 shop shop_state = Inl AttributeError
   \<and> create_merchant (Some ''adm'') mgen_written ''shop'' ''http://shop/hook'' ''adm'' shop_state
     = Inl AttributeError"
proof -
  let ?s2 = "shop_state\<lparr>transactions := [tx1\<lparr>wallet_private_key := ''S9''\<rparr>]\<rparr>"
  have h: "same_but_keys shop_state ?s2"
    by (simp add: same_but_keys_def shop_state_def scrub_def)
  note T = create_raises_before_insert [where ?s1.0 = shop_state and ?s2.0 = ?s2
      and pid = "''order-1''" and m = shop and st = None and limit = 10 and offset = 0
      and payment_req = order1 and s = shop_state and admin_key = "''adm''"
      and nm = "''shop''" and url = "''http://shop/hook''"]
  note G = mp [OF conjunct1 [OF conjunct2 [OF conjunct2 [OF conjunct2 [OF conjunct2 [OF conjunct2 [OF T]]]]]] h]
  note L = mp [OF conjunct1 [OF conjunct2 [OF conjunct2 [OF conjunct2 [OF conjunct2 [OF conjunct2 [OF conjunct2 [OF T]]]]]]] h]
  from h G L conjunct1 [OF T] conjunct1 [OF conjunct2 [OF conjunct2 [OF T]]]
  show ?thesis
    by (intro conjI)
qed

section \<open>The comparison of amounts\<close>

subsection \<open>Rounding to an integer\<close>

lemma round_half_even_floor:
  "\<lfloor>x\<rfloor> \<le> round_half_even x" "round_half_even x \<le> \<lfloor>x\<rfloor> + 1"
  by (simp_all add: round_half_even_def Let_def)

lemma round_half_even_of_int [simp]: "round_half_even (of_int n) = n"
  by (simp add: round_half_even_def Let_def)

lemma round_half_even_mono:
  assumes "x \<le> y"
  shows "round_half_even x \<le> round_half_even y"
proof (cases "\<lfloor>x\<rfloor> = \<lfloor>y\<rfloor>")
  case True
  with assms have "x - of_int \<lfloor>x\<rfloor> \<le> y - of_int \<lfloor>x\<rfloor>"
    by simp
  with True show ?thesis
    by (auto simp: round_half_even_def Let_def)
next
  case False
  with assms have "\<lfloor>x\<rfloor> + 1 \<le> \<lfloor>y\<rfloor>"
    using floor_mono [of x y] by linarith
  with round_half_even_floor(2) [of x] round_half_even_floor(1) [of y] show ?thesis
    by linarith
qed

lemma round_half_even_cases:
  "round_half_even x = \<lfloor>x\<rfloor> \<and> x \<le> of_int \<lfloor>x\<rfloor> + 1 / 2
   \<or> round_half_even x = \<lfloor>x\<rfloor> + 1 \<and> of_int \<lfloor>x\<rfloor> + 1 / 2 \<le> x"
proof -
  define d where "d = x - of_int \<lfloor>x\<rfloor>"
  have "round_half_even x = \<lfloor>x\<rfloor> \<and> d \<le> 1 / 2 \<or> round_half_even x = \<lfloor>x\<rfloor> + 1 \<and> 1 / 2 \<le> d"
    unfolding round_half_even_def Let_def d_def [symmetric]
    by (cases "d < 1 / 2"; cases "1 / 2 < d") auto
  then show ?thesis
    unfolding d_def by linarith
qed

lemma round_half_even_near:
  "of_int (round_half_even x) \<le> x + 1 / 2" "x - 1 / 2 \<le> of_int (round_half_even x)"
proof -
  have f: "of_int \<lfloor>x\<rfloor> \<le> x" "x < of_int \<lfloor>x\<rfloor> + 1"
    by linarith+
  from round_half_even_cases [of x] show "of_int (round_half_even x) \<le> x + 1 / 2"
  proof (elim disjE conjE)
    assume "round_half_even x = \<lfloor>x\<rfloor>"
    then have "(of_int (round_half_even x) :: rat) = of_int \<lfloor>x\<rfloor>"
      by simp
    with f show ?thesis by linarith
  next
    assume "round_half_even x = \<lfloor>x\<rfloor> + 1" and h: "of_int \<lfloor>x\<rfloor> + 1 / 2 \<le> x"
    then have "(of_int (round_half_even x) :: rat) = of_int \<lfloor>x\<rfloor> + 1"
      by simp
    with h show ?thesis by linarith
  qed
  from round_half_even_cases [of x] show "x - 1 / 2 \<le> of_int (round_half_even x)"
  proof (elim disjE conjE)
    assume "round_half_even x = \<lfloor>x\<rfloor>" and h: "x \<le> of_int \<lfloor>x\<rfloor> + 1 / 2"
    then have "(of_int (round_half_even x) :: rat) = of_int \<lfloor>x\<rfloor>"
      by simp
    with h show ?thesis by linarith
  next
    assume "round_half_even x = \<lfloor>x\<rfloor> + 1"
    then have "(of_int (round_half_even x) :: rat) = of_int \<lfloor>x\<rfloor> + 1"
      by simp
    with f show ?thesis by linarith
  qed
qed

lemma round_half_even_eqI:
  assumes "of_int n - 1 / 2 < x" "x < of_int n + 1 / 2"
  shows "round_half_even x = n"
proof -
  from assms have "\<lfloor>x\<rfloor> = n \<or> \<lfloor>x\<rfloor> = n - 1"
    by linarith
  then show ?thesis
  proof
    assume "\<lfloor>x\<rfloor> = n"
    with assms show ?thesis
      by (simp add: round_half_even_def Let_def)
  next
    assume "\<lfloor>x\<rfloor> = n - 1"
    with assms show ?thesis
      by (simp add: round_half_even_def Let_def)
  qed
qed

subsection \<open>The exponent\<close>

lemma exponent_bounds:
  assumes "0 < x"
  shows "2 powi exponent x \<le> x" and "x < 2 powi (exponent x + 1)"
proof -
  obtain p q where pq: "quotient_of x = (p, q)"
    by (cases "quotient_of x")
  then have q: "0 < q" and x: "x = of_int p / of_int q"
    by (simp_all add: quotient_of_denom_pos quotient_of_div)
  from assms x q have p: "0 < p"
    by (simp add: zero_less_divide_iff)
  define k where "k = bitlen p - bitlen q"
  from bitlen_bounds [OF p] have bp: "2 ^ nat (bitlen p - 1) \<le> p" "p < 2 ^ nat (bitlen p)"
    by simp_all
  from bitlen_bounds [OF q] have bq: "2 ^ nat (bitlen q - 1) \<le> q" "q < 2 ^ nat (bitlen q)"
    by simp_all
  from p have p1: "1 \<le> bitlen p"
    by (simp add: bitlen_alt_def)
  from q have q1: "1 \<le> bitlen q"
    by (simp add: bitlen_alt_def)
  have rp: "(2::rat) powi (bitlen p - 1) \<le> of_int p" "(of_int p :: rat) < 2 powi bitlen p"
  proof -
    from bp(1) have "(of_int (2 ^ nat (bitlen p - 1)) :: rat) \<le> of_int p"
      by (simp only: of_int_le_iff)
    with p1 show "(2::rat) powi (bitlen p - 1) \<le> of_int p"
      by (simp add: power_int_nonneg_exp)
    from bp(2) have "(of_int p :: rat) < of_int (2 ^ nat (bitlen p))"
      by (simp only: of_int_less_iff)
    with p1 show "(of_int p :: rat) < 2 powi bitlen p"
      by (simp add: power_int_nonneg_exp)
  qed
  have rq: "(2::rat) powi (bitlen q - 1) \<le> of_int q" "(of_int q :: rat) < 2 powi bitlen q"
  proof -
    from bq(1) have "(of_int (2 ^ nat (bitlen q - 1)) :: rat) \<le> of_int q"
      by (simp only: of_int_le_iff)
    with q1 show "(2::rat) powi (bitlen q - 1) \<le> of_int q"
      by (simp add: power_int_nonneg_exp)
    from bq(2) have "(of_int q :: rat) < of_int (2 ^ nat (bitlen q))"
      by (simp only: of_int_less_iff)
    with q1 show "(of_int q :: rat) < 2 powi bitlen q"
      by (simp add: power_int_nonneg_exp)
  qed
  have pos: "(0::rat) < 2 powi j" for j
    by simp
  from p q have P: "(0::rat) < of_int p" and Q: "(0::rat) < of_int q"
    by simp_all
  have up: "x < 2 powi (k + 1)"
  proof -
    have "x < 2 powi bitlen p / 2 powi (bitlen q - 1)"
      unfolding x using P rp(2) pos [of "bitlen q - 1"] rq(1)
      by (intro frac_less) simp_all
    also have "\<dots> = 2 powi (bitlen p - (bitlen q - 1))"
      by (simp add: power_int_diff)
    also have "bitlen p - (bitlen q - 1) = k + 1"
      by (simp add: k_def)
    finally show ?thesis .
  qed
  have low: "2 powi (k - 1) < x"
  proof -
    have "2 powi (bitlen p - 1) / 2 powi bitlen q < x"
      unfolding x using pos [of "bitlen p - 1"] rp(1) Q rq(2)
      by (intro frac_less2) simp_all
    moreover have "(2::rat) powi (bitlen p - 1) / 2 powi bitlen q = 2 powi (bitlen p - 1 - bitlen q)"
      by (simp add: power_int_diff)
    moreover have "bitlen p - 1 - bitlen q = k - 1"
      by (simp add: k_def)
    ultimately show ?thesis by simp
  qed
  have e: "exponent x = (if 2 powi k \<le> x then k else k - 1)"
    by (simp add: exponent_def pq k_def Let_def)
  show "2 powi exponent x \<le> x"
    using low by (simp add: e)
  show "x < 2 powi (exponent x + 1)"
    using up by (simp add: e not_le)
qed

lemma exponent_eqI:
  assumes "2 powi k \<le> x" "x < 2 powi (k + 1)"
  shows "exponent x = k"
proof -
  have "(0::rat) < 2 powi k"
    by simp
  with assms(1) have x: "0 < x"
    by linarith
  note e = exponent_bounds [OF x]
  have "\<not> exponent x < k"
  proof
    assume "exponent x < k"
    then have "(2::rat) powi (exponent x + 1) \<le> 2 powi k"
      by (intro power_int_increasing) simp_all
    with e(2) assms(1) show False
      by linarith
  qed
  moreover have "\<not> k < exponent x"
  proof
    assume "k < exponent x"
    then have "(2::rat) powi (k + 1) \<le> 2 powi exponent x"
      by (intro power_int_increasing) simp_all
    with e(1) assms(2) show False
      by linarith
  qed
  ultimately show ?thesis
    by linarith
qed

lemma exponent_mono:
  assumes "0 < x" "x \<le> y"
  shows "exponent x \<le> exponent y"
proof (rule ccontr)
  assume "\<not> exponent x \<le> exponent y"
  then have "(2::rat) powi (exponent y + 1) \<le> 2 powi exponent x"
    by (intro power_int_increasing) simp_all
  moreover from assms have "0 < y"
    by linarith
  ultimately show False
    using exponent_bounds(1) [OF assms(1)] exponent_bounds(2) [of y] assms(2)
    by linarith
qed

subsection \<open>The float of a decimal\<close>

lemma ulp_eq:
  "(2::rat) powi (k - 52) = 2 powi k / 2 ^ 52" "(2::rat) powi (k + 1) = 2 powi k * 2"
  "(2::rat) powi (k - 53) = 2 powi (k - 52) / 2"
proof -
  show "(2::rat) powi (k - 52) = 2 powi k / 2 ^ 52"
    by (simp add: power_int_diff)
  show "(2::rat) powi (k + 1) = 2 powi k * 2"
    by (simp add: power_int_add)
  have "(2::rat) powi (k - 53) = 2 powi (k - 52 - 1)"
    by simp
  also have "\<dots> = 2 powi (k - 52) / 2"
    using power_int_diff [of "2::rat" "k - 52" 1] by simp
  finally show "(2::rat) powi (k - 53) = 2 powi (k - 52) / 2" .
qed

lemma float_pos_eq:
  "0 < x \<Longrightarrow>
   float_pos x = of_int (round_half_even (x / 2 powi (exponent x - 52))) * 2 powi (exponent x - 52)"
  by (simp add: float_pos_def)

lemma float_pos_near:
  assumes "0 < x"
  shows "float_pos x \<le> x + 2 powi (exponent x - 53)"
    and "x - 2 powi (exponent x - 53) \<le> float_pos x"
proof -
  define u :: rat where "u = 2 powi (exponent x - 52)"
  have u: "0 < u"
    by (simp add: u_def)
  have h: "2 powi (exponent x - 53) = u / 2"
    by (simp add: u_def ulp_eq(3))
  have f: "float_pos x = of_int (round_half_even (x / u)) * u"
    using assms by (simp add: float_pos_eq u_def)
  from round_half_even_near(1) [of "x / u"] u
  have "of_int (round_half_even (x / u)) * u \<le> (x / u + 1 / 2) * u"
    by (intro mult_right_mono) simp_all
  also from u have "(x / u + 1 / 2) * u = x + u / 2"
    by (simp add: field_simps)
  finally show "float_pos x \<le> x + 2 powi (exponent x - 53)"
    by (simp add: f h)
  from round_half_even_near(2) [of "x / u"] u
  have "(x / u - 1 / 2) * u \<le> of_int (round_half_even (x / u)) * u"
    by (intro mult_right_mono) simp_all
  moreover from u have "(x / u - 1 / 2) * u = x - u / 2"
    by (simp add: field_simps)
  ultimately show "x - 2 powi (exponent x - 53) \<le> float_pos x"
    by (simp add: f h)
qed

lemma float_pos_bounds:
  assumes "0 < x"
  shows "2 powi exponent x \<le> float_pos x" and "float_pos x \<le> 2 powi (exponent x + 1)"
proof -
  define u :: rat where "u = 2 powi (exponent x - 52)"
  have u: "0 < u"
    by (simp add: u_def)
  have e: "2 powi exponent x = 2 ^ 52 * u" "2 powi (exponent x + 1) = 2 ^ 53 * u"
    by (simp_all add: u_def ulp_eq)
  have f: "float_pos x = of_int (round_half_even (x / u)) * u"
    using assms by (simp add: float_pos_eq u_def)
  from exponent_bounds [OF assms] u have "2 ^ 52 \<le> x / u" "x / u \<le> 2 ^ 53"
    by (simp_all add: e pos_le_divide_eq pos_divide_le_eq)
  then have "(of_int (2 ^ 52) :: rat) \<le> x / u" "x / u \<le> (of_int (2 ^ 53) :: rat)"
    by simp_all
  from round_half_even_mono [OF this(1)] round_half_even_mono [OF this(2)]
  have r: "2 ^ 52 \<le> round_half_even (x / u)" "round_half_even (x / u) \<le> 2 ^ 53"
    by (simp_all only: round_half_even_of_int)
  from r(1) have "(of_int (2 ^ 52) :: rat) \<le> of_int (round_half_even (x / u))"
    by (simp only: of_int_le_iff)
  with u have "2 ^ 52 * u \<le> of_int (round_half_even (x / u)) * u"
    by (intro mult_right_mono) simp_all
  then show "2 powi exponent x \<le> float_pos x"
    by (simp add: e f)
  from r(2) have "(of_int (round_half_even (x / u)) :: rat) \<le> of_int (2 ^ 53)"
    by (simp only: of_int_le_iff)
  with u have "of_int (round_half_even (x / u)) * u \<le> 2 ^ 53 * u"
    by (intro mult_right_mono) simp_all
  then show "float_pos x \<le> 2 powi (exponent x + 1)"
    by (simp only: e f)
qed

lemma float_pos_nonneg: "0 \<le> x \<Longrightarrow> 0 \<le> float_pos x"
proof (cases "x = 0")
  case True
  then show ?thesis by (simp add: float_pos_def)
next
  case False
  assume "0 \<le> x"
  with False have x: "0 < x" by simp
  have "(0::rat) \<le> 2 powi exponent x" by simp
  with float_pos_bounds(1) [OF x] show ?thesis by linarith
qed

lemma float_pos_mono:
  assumes "0 \<le> x" "x \<le> y"
  shows "float_pos x \<le> float_pos y"
proof (cases "x = 0")
  case True
  with assms float_pos_nonneg [of y] show ?thesis
    by (simp add: float_pos_def)
next
  case False
  with assms have x: "0 < x" and y: "0 < y"
    by simp_all
  from exponent_mono [OF x assms(2)] have "exponent x = exponent y \<or> exponent x + 1 \<le> exponent y"
    by linarith
  then show ?thesis
  proof
    assume e: "exponent x = exponent y"
    define u :: rat where "u = 2 powi (exponent y - 52)"
    have u: "0 < u"
      by (simp add: u_def)
    from assms(2) u have "x / u \<le> y / u"
      by (simp add: divide_right_mono)
    from round_half_even_mono [OF this]
    have "(of_int (round_half_even (x / u)) :: rat) \<le> of_int (round_half_even (y / u))"
      by (simp only: of_int_le_iff)
    with u have "of_int (round_half_even (x / u)) * u \<le> of_int (round_half_even (y / u)) * u"
      by (intro mult_right_mono) simp_all
    with x y show ?thesis
      by (simp add: float_pos_eq e u_def)
  next
    assume "exponent x + 1 \<le> exponent y"
    then have "(2::rat) powi (exponent x + 1) \<le> 2 powi exponent y"
      by (intro power_int_increasing) simp_all
    with float_pos_bounds(2) [OF x] float_pos_bounds(1) [OF y] show ?thesis
      by linarith
  qed
qed

lemma float_of_mono: "0 \<le> x \<Longrightarrow> x \<le> y \<Longrightarrow> float_of x \<le> float_of y"
  by (simp add: float_of_def float_pos_mono)

subsection \<open>Two amounts one micro-unit apart\<close>

lemma float_of_collision:
  "float_of (8589934592000001 / 1000000) = 4503599627370497 / 524288"
  "float_of (8589934592000002 / 1000000) = 4503599627370497 / 524288"
proof -
  have e1: "exponent (8589934592000001 / 1000000) = 33"
    by (rule exponent_eqI) simp_all
  have e2: "exponent (8589934592000002 / 1000000) = 33"
    by (rule exponent_eqI) simp_all
  have u: "(2::rat) powi (33 - 52) = 1 / 524288"
    by (simp add: power_int_minus_divide)
  have r1: "round_half_even (8589934592000001 / 1000000 / (1 / 524288)) = 4503599627370497"
    by (rule round_half_even_eqI) simp_all
  have r2: "round_half_even (8589934592000002 / 1000000 / (1 / 524288)) = 4503599627370497"
    by (rule round_half_even_eqI) simp_all
  show "float_of (8589934592000001 / 1000000) = 4503599627370497 / 524288"
    by (simp only: float_of_def float_pos_def e1 u r1) simp
  show "float_of (8589934592000002 / 1000000) = 4503599627370497 / 524288"
    by (simp only: float_of_def float_pos_def e2 u r2) simp
qed

lemma float_of_scenario: "float_of (9999999 / 1000000) < float_of 10"
proof -
  have e1: "exponent (9999999 / 1000000) = 3"
    by (rule exponent_eqI) simp_all
  have e2: "exponent 10 = 3"
    by (rule exponent_eqI) simp_all
  have h: "(2::rat) powi (3 - 53) = 1 / 1125899906842624"
    by (simp add: power_int_minus_divide)
  from float_pos_near(1) [of "9999999 / 1000000"]
  have a: "float_pos (9999999 / 1000000) \<le> 9999999 / 1000000 + 1 / 1125899906842624"
    by (simp only: e1 h)
  from float_pos_near(2) [of 10]
  have b: "10 - 1 / 1125899906842624 \<le> float_pos 10"
    by (simp only: e2 h)
  have "(9999999 / 1000000 + 1 / 1125899906842624 :: rat) < 10 - 1 / 1125899906842624"
    by simp
  with a b show ?thesis
    by (simp add: float_of_def)
qed

text \<open>
  C4 (as amended). The test compares the two floats with \<open>>=\<close> and no tolerance. A
  balance that is at least the requested amount always passes. A balance below the
  requested amount passes only when both amounts have the same float, and fails
  otherwise, however small the difference: against a request of 10.00 a balance of
  9.999999 fails, and the record stays pending.
\<close>

theorem float_comparison_of_amounts:
  "(0 \<le> requested \<and> requested \<le> ui_amount \<longrightarrow> balance_suffices ui_amount requested)
   \<and> (0 \<le> ui_amount \<and> ui_amount < requested \<and> balance_suffices ui_amount requested
        \<longrightarrow> float_of ui_amount = float_of requested)
   \<and> (0 \<le> ui_amount \<and> float_of ui_amount < float_of requested
        \<longrightarrow> \<not> balance_suffices ui_amount requested \<and> ui_amount < requested)
   \<and> \<not> balance_suffices (9999999 / 1000000) 10"
proof (intro conjI impI)
  assume "0 \<le> requested \<and> requested \<le> ui_amount"
  then show "balance_suffices ui_amount requested"
    by (simp add: balance_suffices_def float_of_mono)
next
  assume h: "0 \<le> ui_amount \<and> ui_amount < requested \<and> balance_suffices ui_amount requested"
  then have "float_of ui_amount \<le> float_of requested"
    by (simp add: float_of_mono)
  with h show "float_of ui_amount = float_of requested"
    by (simp add: balance_suffices_def)
next
  assume h: "0 \<le> ui_amount \<and> float_of ui_amount < float_of requested"
  then show "\<not> balance_suffices ui_amount requested"
    by (simp add: balance_suffices_def)
  show "ui_amount < requested"
  proof (rule ccontr)
    assume "\<not> ui_amount < requested"
    with h have "requested \<le> ui_amount" "0 \<le> ui_amount"
      by simp_all
    show False
    proof (cases "0 \<le> requested")
      case True
      from float_of_mono [OF True \<open>requested \<le> ui_amount\<close>] h show False
        by simp
    next
      case False
      then have "float_of requested = - float_pos (- requested)" "0 \<le> - requested"
        by (simp_all add: float_of_def)
      with float_pos_nonneg [of "- requested"] have "float_of requested \<le> 0"
        by simp
      moreover from h have "0 \<le> float_of ui_amount"
        by (simp add: float_of_def float_pos_nonneg)
      ultimately show False
        using h by linarith
    qed
  qed
next
  from float_of_scenario show "\<not> balance_suffices (9999999 / 1000000) 10"
    by (simp add: balance_suffices_def)
qed

theorem float_comparison_of_amounts_witness:
  "(0::rat) \<le> 10 \<and> (10::rat) \<le> 10 \<and> balance_suffices 10 10
   \<and> (0::rat) \<le> 9999999 / 1000000
   \<and> float_of (9999999 / 1000000) < float_of 10
   \<and> \<not> balance_suffices (9999999 / 1000000) 10
   \<and> (9999999 / 1000000 :: rat) < 10"
proof -
  have a: "(0::rat) \<le> 10 \<and> (10::rat) \<le> 10"
    by simp
  have b: "(0::rat) \<le> 9999999 / 1000000 \<and> float_of (9999999 / 1000000) < float_of 10"
    using float_of_scenario by simp
  note T = float_comparison_of_amounts [of 10 10]
  note T2 = float_comparison_of_amounts [of 10 "9999999 / 1000000"]
  note A = mp [OF conjunct1 [OF T] a]
  note B = mp [OF conjunct1 [OF conjunct2 [OF conjunct2 [OF T2]]] b]
  from conjunct1 [OF a] conjunct2 [OF a] A conjunct1 [OF b] conjunct2 [OF b]
    conjunct1 [OF B] conjunct2 [OF B]
  show ?thesis
    by (intro conjI)
qed

text \<open>
  C4 (as stated) fails: the test is not the exact comparison of the decimals. A balance
  of 8589934592.000001 is below a request of 8589934592.000002, and passes: both
  amounts have the same float.
\<close>

theorem float_comparison_counterexample:
  "(8589934592000001 / 1000000 :: rat) < 8589934592000002 / 1000000
   \<and> float_of (8589934592000001 / 1000000) = float_of (8589934592000002 / 1000000)
   \<and> balance_suffices (8589934592000001 / 1000000) (8589934592000002 / 1000000)"
  unfolding balance_suffices_def float_of_collision by simp

end
